theory Spec2Isabelle
  imports Main "HOL-Library.AList" "HOL-Library.Sublist"
begin

section \<open>The chat server of \<^verbatim>\<open>src/server.py\<close>\<close>

subsection \<open>Sockets, events, outcomes\<close>

text \<open>
  A socket is identified by a number. What the server does to the outside world is
  recorded as a chronological list of events: a write that went through, a write that
  raised, and a close. Every event carries the state of \<^verbatim>\<open>clients_lock\<close> at the moment
  it happened (\<open>True\<close>: the lock was held).
\<close>

type_synonym sock = nat

datatype event = Sent sock string | SendFailed sock string | Closed sock

text \<open>
  A call either returns, raises, or blocks forever. \<^verbatim>\<open>clients_lock\<close> is a
  \<^verbatim>\<open>threading.Lock()\<close>, which is not reentrant: acquiring it while it is held never
  comes back unless some other thread releases it, and no thread of this program releases
  a lock it does not hold. \<open>Blocked\<close> is that outcome; the state returned with it is the
  state in which the thread hangs.
\<close>

datatype exn = KeyError | OSError | ValueError

datatype 'a outcome = Returned 'a | Raised exn | Blocked

text \<open>
  The fields of \<^verbatim>\<open>ChatServer\<close> (\<^verbatim>\<open>__init__\<close>, lines 43-53). The dictionary
  \<^verbatim>\<open>clients\<close> is an association list in insertion order, which is the order Python
  iterates a dict in. \<open>down\<close> is the set of sockets on which \<^verbatim>\<open>send\<close> raises (the peer
  is gone, or the socket was closed); \<open>trace\<close> is the event log.
\<close>

record chat_server =
  clients :: "(string \<times> sock) list"
  clients_lock :: bool
  active_connections :: int
  connection_count :: int
  max_concurrent :: int
  down :: "sock set"
  trace :: "(bool \<times> event) list"

definition init_server :: "sock set \<Rightarrow> chat_server" where
  "init_server unreachable =
     \<lparr>clients = [], clients_lock = False, active_connections = 0,
      connection_count = 0, max_concurrent = 0, down = unreachable, trace = []\<rparr>"

definition sock_send :: "chat_server \<Rightarrow> sock \<Rightarrow> string \<Rightarrow> bool \<times> chat_server" where
  "sock_send s k payload =
     (if k \<in> down s
      then (False, s\<lparr>trace := trace s @ [(clients_lock s, SendFailed k payload)]\<rparr>)
      else (True, s\<lparr>trace := trace s @ [(clients_lock s, Sent k payload)]\<rparr>))"

definition sock_close :: "chat_server \<Rightarrow> sock \<Rightarrow> chat_server" where
  "sock_close s k =
     s\<lparr>down := insert k (down s), trace := trace s @ [(clients_lock s, Closed k)]\<rparr>"

subsection \<open>Python string helpers\<close>

text \<open>\<^verbatim>\<open>str.split(sep, maxsplit)\<close> for a one-character separator: empty tokens are kept.\<close>

fun py_split :: "char \<Rightarrow> nat \<Rightarrow> string \<Rightarrow> string list" where
  "py_split sep 0 s = [s]"
| "py_split sep (Suc n) s =
     (if sep \<in> set s
      then takeWhile (\<lambda>c. c \<noteq> sep) s # py_split sep n (tl (dropWhile (\<lambda>c. c \<noteq> sep) s))
      else [s])"

text \<open>\<^verbatim>\<open>sep.join(xs)\<close>.\<close>

fun py_join :: "string \<Rightarrow> string list \<Rightarrow> string" where
  "py_join sep [] = []"
| "py_join sep [x] = x"
| "py_join sep (x # y # ys) = x @ sep @ py_join sep (y # ys)"

text \<open>\<^verbatim>\<open>str(n)\<close> for a length: the decimal digits.\<close>

definition digit :: "nat \<Rightarrow> char" where
  "digit d = char_of (48 + d)"

function py_str :: "nat \<Rightarrow> string" where
  "py_str n = (if n < 10 then [digit n] else py_str (n div 10) @ [digit (n mod 10)])"
  by pat_completeness auto
termination
  by (relation "measure id") auto

declare py_str.simps [simp del]

text \<open>
  \<^verbatim>\<open>str.strip()\<close> removes, at both ends, the characters for which \<^verbatim>\<open>str.isspace\<close>
  holds. A character of a \<open>string\<close> is a code point below 256; among these Python counts
  as whitespace 9 to 13 (tab, line feed, vertical tab, form feed, carriage return), 28 to
  31 (the separators), 32 (space), 133 (U+0085, next line) and 160 (U+00A0, no-break
  space).
\<close>

definition is_space :: "char \<Rightarrow> bool" where
  "is_space c = ((9 \<le> (of_char c :: nat) \<and> (of_char c :: nat) \<le> 13)
               \<or> (28 \<le> (of_char c :: nat) \<and> (of_char c :: nat) \<le> 32)
               \<or> (of_char c :: nat) = 133
               \<or> (of_char c :: nat) = 160)"

definition py_strip :: "string \<Rightarrow> string" where
  "py_strip s = rev (dropWhile is_space (rev (dropWhile is_space s)))"

subsection \<open>Connection management\<close>

text \<open>\<^verbatim>\<open>add_client\<close>, lines 57-75.\<close>

definition add_client :: "chat_server \<Rightarrow> string \<Rightarrow> sock \<Rightarrow> bool outcome \<times> chat_server" where
  "add_client s username client_socket =
     (if clients_lock s then (Blocked, s)
      else if username \<in> set (map fst (clients s)) then (Returned False, s)
      else (let s1 = s\<lparr>clients := AList.update username client_socket (clients s),
                       active_connections := active_connections s + 1,
                       connection_count := connection_count s + 1\<rparr>;
                s2 = (if active_connections s1 > max_concurrent s1
                      then s1\<lparr>max_concurrent := active_connections s1\<rparr> else s1)
            in (Returned True, s2)))"

text \<open>
  The first loop of \<^verbatim>\<open>broadcast\<close> (lines 121-127): one \<^verbatim>\<open>send\<close> per entry whose key is
  not the sender; a key whose \<^verbatim>\<open>send\<close> raised is appended to \<^verbatim>\<open>disconnected\<close>.
\<close>

fun fan_out :: "(string \<times> sock) list \<Rightarrow> string \<Rightarrow> string option \<Rightarrow> string list \<Rightarrow> chat_server
                  \<Rightarrow> string list \<times> chat_server" where
  "fan_out [] message sender disconnected s = (disconnected, s)"
| "fan_out ((username, client_socket) # rest) message sender disconnected s =
     (if Some username \<noteq> sender
      then (case sock_send s client_socket message of
              (True, s1) \<Rightarrow> fan_out rest message sender disconnected s1
            | (False, s1) \<Rightarrow> fan_out rest message sender (disconnected @ [username]) s1)
      else fan_out rest message sender disconnected s)"

text \<open>
  \<^verbatim>\<open>broadcast\<close> (lines 113-131) and \<^verbatim>\<open>remove_client\<close> (lines 77-104) call each other,
  each from inside its own \<^verbatim>\<open>with self.clients_lock\<close> block. \<open>remove_each\<close> is the second
  loop of \<^verbatim>\<open>broadcast\<close> (lines 130-131). Leaving a \<^verbatim>\<open>with\<close> block releases the lock; a
  thread that blocks inside it never leaves it.
\<close>

function broadcast :: "chat_server \<Rightarrow> string \<Rightarrow> string option \<Rightarrow> unit outcome \<times> chat_server"
  and remove_each :: "chat_server \<Rightarrow> string list \<Rightarrow> unit outcome \<times> chat_server"
  and remove_client :: "chat_server \<Rightarrow> string \<Rightarrow> bool \<Rightarrow> unit outcome \<times> chat_server" where
  "broadcast s message sender =
     (if clients_lock s then (Blocked, s)
      else (case fan_out (clients s) message sender [] (s\<lparr>clients_lock := True\<rparr>) of
              (disconnected, s1) \<Rightarrow>
                (case remove_each s1 disconnected of
                   (Blocked, s2) \<Rightarrow> (Blocked, s2)
                 | (r, s2) \<Rightarrow> (r, s2\<lparr>clients_lock := False\<rparr>))))"
| "remove_each s [] = (Returned (), s)"
| "remove_each s (username # rest) =
     (case remove_client s username False of
        (Returned _, s1) \<Rightarrow> remove_each s1 rest
      | (r, s1) \<Rightarrow> (r, s1))"
| "remove_client s username notify =
     (if clients_lock s then (Blocked, s)
      else (case map_of (clients s) username of
              None \<Rightarrow> (Returned (), s)
            | Some client_socket \<Rightarrow>
                (let s1 = s\<lparr>clients_lock := True\<rparr>;
                     s2 = (if notify
                           then snd (sock_send s1 client_socket ''[SERVER] Connection closed'')
                           else s1);
                     s3 = sock_close s2 client_socket;
                     s4 = s3\<lparr>clients := AList.delete username (clients s3),
                             active_connections := active_connections s3 - 1\<rparr>
                 in if notify
                    then (case broadcast s4 (''[SERVER] '' @ username @ '' left the chat'')
                                 (Some username) of
                            (Blocked, s5) \<Rightarrow> (Blocked, s5)
                          | (r, s5) \<Rightarrow> (r, s5\<lparr>clients_lock := False\<rparr>))
                    else (Returned (), s4\<lparr>clients_lock := False\<rparr>))))"
  by pat_completeness auto
termination
  by (relation "inv_image (less_than <*lex*> less_than) (\<lambda>x. case x of
            Inl (s, message, sender) \<Rightarrow> (2::nat, 0::nat)
          | Inr (Inl (s, us)) \<Rightarrow> (1, length us)
          | Inr (Inr (s, username, notify)) \<Rightarrow> (if notify then 3 else 0, 0))") auto

declare broadcast.simps [simp del] remove_client.simps [simp del]

text \<open>\<^verbatim>\<open>get_online_users\<close>, lines 106-109.\<close>

definition get_online_users :: "chat_server \<Rightarrow> string list outcome \<times> chat_server" where
  "get_online_users s =
     (if clients_lock s then (Blocked, s) else (Returned (map fst (clients s)), s))"

subsection \<open>Message routing\<close>

text \<open>
  \<^verbatim>\<open>try: self.clients[sender].send(text) except: pass\<close> (lines 155-158, 162-165): a
  missing key and a failed write are both swallowed.
\<close>

definition try_send :: "chat_server \<Rightarrow> string \<Rightarrow> string \<Rightarrow> chat_server" where
  "try_send s sender text =
     (case map_of (clients s) sender of
        None \<Rightarrow> s
      | Some k \<Rightarrow> snd (sock_send s k text))"

text \<open>\<^verbatim>\<open>private_message\<close>, lines 133-165.\<close>

definition private_message ::
  "chat_server \<Rightarrow> string \<Rightarrow> string \<Rightarrow> string \<Rightarrow> unit outcome \<times> chat_server" where
  "private_message s target_user message sender =
     (if clients_lock s then (Blocked, s)
      else (let s1 = s\<lparr>clients_lock := True\<rparr>;
                could_not = ''[ERROR] Could not deliver message to '' @ target_user;
                s5 = (case map_of (clients s1) target_user of
                        Some target_socket \<Rightarrow>
                          (case sock_send s1 target_socket
                                  (''[PRIVATE] '' @ sender @ '': '' @ message) of
                             (False, s2) \<Rightarrow> try_send s2 sender could_not
                           | (True, s2) \<Rightarrow>
                               (case map_of (clients s2) sender of
                                  None \<Rightarrow> try_send s2 sender could_not
                                | Some sender_socket \<Rightarrow>
                                    (case sock_send s2 sender_socket
                                            (''[SENT] Private message to '' @ target_user) of
                                       (True, s3) \<Rightarrow> s3
                                     | (False, s3) \<Rightarrow> try_send s3 sender could_not)))
                      | None \<Rightarrow>
                          try_send s1 sender
                            (''[ERROR] User '' @ [CHR 0x27] @ target_user @ [CHR 0x27]
                               @ '' is not online''))
            in (Returned (), s5\<lparr>clients_lock := False\<rparr>)))"

text \<open>
  \<^verbatim>\<open>self.clients[username].send(text)\<close> outside any \<^verbatim>\<open>try\<close> (lines 266, 272, 284):
  a missing key raises \<^verbatim>\<open>KeyError\<close>, a failed write raises.
\<close>

definition reply :: "chat_server \<Rightarrow> string \<Rightarrow> string \<Rightarrow> unit outcome \<times> chat_server" where
  "reply s username text =
     (case map_of (clients s) username of
        None \<Rightarrow> (Raised KeyError, s)
      | Some k \<Rightarrow>
          (case sock_send s k text of
             (True, s1) \<Rightarrow> (Returned (), s1)
           | (False, s1) \<Rightarrow> (Raised OSError, s1)))"

definition help_text :: string where
  "help_text =
     [CHR 0x0A] @ ''--- Available Commands ---'' @ [CHR 0x0A]
     @ ''/private <username> <message> - Send private message'' @ [CHR 0x0A]
     @ ''/users - List online users'' @ [CHR 0x0A]
     @ ''/help - Show this help'' @ [CHR 0x0A]
     @ ''Type normally for group chat'' @ [CHR 0x0A]
     @ ''--------------------------'' @ [CHR 0x0A]"

definition usage_error :: string where
  "usage_error = ''[ERROR] Usage: /private <username> <message>''"

text \<open>\<^verbatim>\<open>route_message\<close>, lines 254-290.\<close>

definition route_message :: "chat_server \<Rightarrow> string \<Rightarrow> string \<Rightarrow> unit outcome \<times> chat_server" where
  "route_message s username message =
     (if prefix ''/private'' message
      then (let parts = py_split (CHR '' '') 2 message in
            if length parts \<ge> 3
            then (case parts of
                    [c, target, msg_content] \<Rightarrow>
                      private_message s target msg_content username
                  | _ \<Rightarrow> (Raised ValueError, s))
            else reply s username usage_error)
      else if message = ''/users''
      then (case get_online_users s of
              (Returned users, s1) \<Rightarrow>
                reply s1 username
                  (''[SERVER] Online users ('' @ py_str (length users) @ ''): ''
                     @ py_join '', '' users)
            | (Raised e, s1) \<Rightarrow> (Raised e, s1)
            | (Blocked, s1) \<Rightarrow> (Blocked, s1))
      else if message = ''/help''
      then reply s username help_text
      else broadcast s (username @ '': '' @ message) (Some username))"

subsection \<open>The client handler\<close>

text \<open>
  What one \<^verbatim>\<open>recv\<close> on the client's socket gives: data, the idle timeout, a reset, or
  another error. A handler is run against a finite script of these; the end of the
  script is the peer closing the connection (\<^verbatim>\<open>recv\<close> returns the empty string).
\<close>

datatype recv = Data string | Timeout | Reset | RecvError

text \<open>The main loop of \<^verbatim>\<open>handle_client\<close>, lines 211-238.\<close>

fun message_loop :: "chat_server \<Rightarrow> string \<Rightarrow> sock \<Rightarrow> recv list \<Rightarrow> unit outcome \<times> chat_server" where
  "message_loop s username client_socket [] = (Returned (), s)"
| "message_loop s username client_socket (Data d # script) =
     (if py_strip d = [] then (Returned (), s)
      else (case route_message s username (py_strip d) of
              (Returned _, s1) \<Rightarrow> message_loop s1 username client_socket script
            | (Raised e, s1) \<Rightarrow> (Returned (), s1)
            | (Blocked, s1) \<Rightarrow> (Blocked, s1)))"
| "message_loop s username client_socket (Timeout # script) =
     (case sock_send s client_socket [] of
        (True, s1) \<Rightarrow> message_loop s1 username client_socket script
      | (False, s1) \<Rightarrow> (Returned (), s1))"
| "message_loop s username client_socket (Reset # script) = (Returned (), s)"
| "message_loop s username client_socket (RecvError # script) = (Returned (), s)"

text \<open>
  The \<^verbatim>\<open>finally\<close> block of \<^verbatim>\<open>handle_client\<close>, lines 243-252. \<^verbatim>\<open>username\<close> is
  \<^verbatim>\<open>None\<close> or empty (both false in Python, both \<open>[]\<close> here) or the received handle.
\<close>

definition cleanup :: "chat_server \<Rightarrow> string \<Rightarrow> sock \<Rightarrow> unit outcome \<times> chat_server" where
  "cleanup s username client_socket =
     (if username \<noteq> [] then remove_client s username True
      else (Returned (), sock_close s client_socket))"

definition taken_error :: string where
  "taken_error = ''[ERROR] Username already taken. Please try another.''"

text \<open>
  \<^verbatim>\<open>handle_client\<close>, lines 169-252. Every exit from the \<^verbatim>\<open>try\<close> block, the
  \<^verbatim>\<open>return\<close> of line 190 included, runs the \<^verbatim>\<open>finally\<close> block.
\<close>

definition handle_client :: "chat_server \<Rightarrow> sock \<Rightarrow> recv list \<Rightarrow> unit outcome \<times> chat_server" where
  "handle_client s client_socket script =
     (case script of
        Data d # rest \<Rightarrow>
          (let username = py_strip d in
           if username = [] then cleanup s username client_socket
           else (case add_client s username client_socket of
                   (Blocked, s1) \<Rightarrow> (Blocked, s1)
                 | (Raised e, s1) \<Rightarrow> cleanup s1 username client_socket
                 | (Returned False, s1) \<Rightarrow>
                     (case sock_send s1 client_socket taken_error of
                        (True, s2) \<Rightarrow> cleanup (sock_close s2 client_socket) username client_socket
                      | (False, s2) \<Rightarrow> cleanup s2 username client_socket)
                 | (Returned True, s1) \<Rightarrow>
                     (case sock_send s1 client_socket
                             (''[SERVER] Welcome '' @ username @ ''! You are connected.'') of
                        (False, s2) \<Rightarrow> cleanup s2 username client_socket
                      | (True, s2) \<Rightarrow>
                          (case broadcast s2 (''[SERVER] '' @ username @ '' joined the chat'')
                                  (Some username) of
                             (Blocked, s3) \<Rightarrow> (Blocked, s3)
                           | (Raised e, s3) \<Rightarrow> cleanup s3 username client_socket
                           | (Returned _, s3) \<Rightarrow>
                               (case sock_send s3 client_socket help_text of
                                  (False, s4) \<Rightarrow> cleanup s4 username client_socket
                                | (True, s4) \<Rightarrow>
                                    (case message_loop s4 username client_socket rest of
                                       (Blocked, s5) \<Rightarrow> (Blocked, s5)
                                     | (r, s5) \<Rightarrow> cleanup s5 username client_socket))))))
      | _ \<Rightarrow> cleanup s [] client_socket)"

section \<open>The confidentiality helper of \<^verbatim>\<open>src/chat_project/encrypt.py\<close>\<close>

text \<open>
  Bytes are numbers below 256. A Python \<^verbatim>\<open>str\<close> is here the list of its code points,
  since \<^verbatim>\<open>encode("utf-8")\<close> turns one code point into one to four bytes. The errors
  the two functions can raise are \<^verbatim>\<open>UnicodeEncodeError\<close>, \<^verbatim>\<open>UnicodeDecodeError\<close> and the
  \<^verbatim>\<open>ValueError\<close> of a failed MAC check.
\<close>

type_synonym bytes = "nat list"

datatype crypto_error = UnicodeEncodeError | UnicodeDecodeError | MacCheckFailed

text \<open>
  \<^verbatim>\<open>str.encode("utf-8")\<close>: strict UTF-8. A surrogate code point (D800 to DFFF) cannot be
  encoded and raises; a number from 110000 on is not a code point of a \<^verbatim>\<open>str\<close>.
\<close>

definition utf8_encode_char :: "nat \<Rightarrow> bytes option" where
  "utf8_encode_char c =
     (if c < 0x80 then Some [c]
      else if c < 0x800 then Some [0xC0 + c div 0x40, 0x80 + c mod 0x40]
      else if c < 0x10000 then
        (if 0xD800 \<le> c \<and> c \<le> 0xDFFF then None
         else Some [0xE0 + c div 0x1000, 0x80 + c div 0x40 mod 0x40, 0x80 + c mod 0x40])
      else if c < 0x110000 then
        Some [0xF0 + c div 0x40000, 0x80 + c div 0x1000 mod 0x40,
              0x80 + c div 0x40 mod 0x40, 0x80 + c mod 0x40]
      else None)"

fun utf8_encode :: "nat list \<Rightarrow> bytes option" where
  "utf8_encode [] = Some []"
| "utf8_encode (c # cs) =
     (case utf8_encode_char c of
        None \<Rightarrow> None
      | Some bs \<Rightarrow> (case utf8_encode cs of None \<Rightarrow> None | Some r \<Rightarrow> Some (bs @ r)))"

text \<open>
  \<^verbatim>\<open>bytes.decode("utf-8")\<close>: strict as well. Overlong forms, surrogates, values from
  110000 on, stray continuation bytes and truncated sequences raise.
\<close>

definition cont :: "nat \<Rightarrow> bool" where
  "cont b = (0x80 \<le> b \<and> b < 0xC0)"

fun utf8_decode :: "bytes \<Rightarrow> nat list option" where
  "utf8_decode [] = Some []"
| "utf8_decode (b # bs) =
     (if b < 0x80 then map_option ((#) b) (utf8_decode bs)
      else if 0xC2 \<le> b \<and> b < 0xE0 then
        (case bs of
           b1 # r \<Rightarrow>
             if cont b1
             then map_option ((#) ((b - 0xC0) * 0x40 + (b1 - 0x80))) (utf8_decode r)
             else None
         | _ \<Rightarrow> None)
      else if 0xE0 \<le> b \<and> b < 0xF0 then
        (case bs of
           b1 # b2 # r \<Rightarrow>
             (let cp = (b - 0xE0) * 0x1000 + (b1 - 0x80) * 0x40 + (b2 - 0x80) in
              if cont b1 \<and> cont b2 \<and> 0x800 \<le> cp \<and> \<not> (0xD800 \<le> cp \<and> cp \<le> 0xDFFF)
              then map_option ((#) cp) (utf8_decode r) else None)
         | _ \<Rightarrow> None)
      else if 0xF0 \<le> b \<and> b < 0xF5 then
        (case bs of
           b1 # b2 # b3 # r \<Rightarrow>
             (let cp = (b - 0xF0) * 0x40000 + (b1 - 0x80) * 0x1000 + (b2 - 0x80) * 0x40
                         + (b3 - 0x80) in
              if cont b1 \<and> cont b2 \<and> cont b3 \<and> 0x10000 \<le> cp \<and> cp < 0x110000
              then map_option ((#) cp) (utf8_decode r) else None)
         | _ \<Rightarrow> None)
      else None)"

text \<open>
  The cipher is PyCryptodome's AES in EAX mode, which is not part of the repository: it is
  a parameter. \<open>encrypt_and_digest key nonce plaintext\<close> gives the ciphertext and the tag;
  \<open>decrypt_and_verify key nonce ciphertext tag\<close> gives the plaintext, or \<open>None\<close> when the
  MAC check fails. The nonce \<^verbatim>\<open>AES.new\<close> draws at random (line 7) is an argument of
  \<open>encrypt_message\<close>.
\<close>

record aes_eax =
  encrypt_and_digest :: "bytes \<Rightarrow> bytes \<Rightarrow> bytes \<Rightarrow> bytes \<times> bytes"
  decrypt_and_verify :: "bytes \<Rightarrow> bytes \<Rightarrow> bytes \<Rightarrow> bytes \<Rightarrow> bytes option"

definition KEY :: bytes where
  "KEY = map of_char ''this_is_16_bytes''"

text \<open>\<^verbatim>\<open>encrypt_message\<close>, lines 6-11.\<close>

definition encrypt_message :: "aes_eax \<Rightarrow> bytes \<Rightarrow> nat list \<Rightarrow> crypto_error + bytes" where
  "encrypt_message aes nonce message =
     (case utf8_encode message of
        None \<Rightarrow> Inl UnicodeEncodeError
      | Some plaintext \<Rightarrow>
          (case encrypt_and_digest aes KEY nonce plaintext of
             (ciphertext, tag) \<Rightarrow> Inr (nonce @ tag @ ciphertext)))"

text \<open>\<^verbatim>\<open>decrypt_message\<close>, lines 14-22.\<close>

definition decrypt_message :: "aes_eax \<Rightarrow> bytes \<Rightarrow> crypto_error + nat list" where
  "decrypt_message aes data =
     (let nonce = take 16 data;
          tag = take 16 (drop 16 data);
          ciphertext = drop 32 data
      in case decrypt_and_verify aes KEY nonce ciphertext tag of
           None \<Rightarrow> Inl MacCheckFailed
         | Some plaintext \<Rightarrow>
             (case utf8_decode plaintext of
                None \<Rightarrow> Inl UnicodeDecodeError
              | Some message \<Rightarrow> Inr message))"

text \<open>\<^verbatim>\<open>decrypt_message(encrypt_message(message))\<close>.\<close>

definition round_trip :: "aes_eax \<Rightarrow> bytes \<Rightarrow> nat list \<Rightarrow> crypto_error + nat list" where
  "round_trip aes nonce message =
     (case encrypt_message aes nonce message of
        Inl e \<Rightarrow> Inl e
      | Inr data \<Rightarrow> decrypt_message aes data)"

text \<open>The strings UTF-8 can encode: every code point is below 110000 and none is a surrogate.\<close>

definition encodable :: "nat list \<Rightarrow> bool" where
  "encodable message = list_all (\<lambda>c. c < 0x110000 \<and> \<not> (0xD800 \<le> c \<and> c \<le> 0xDFFF)) message"

text \<open>
  A stand-in cipher to instantiate the parameter with: the ciphertext is the plaintext and
  the tag is sixteen zero bytes.
\<close>

definition plain_eax :: aes_eax where
  "plain_eax =
     \<lparr>encrypt_and_digest = (\<lambda>key nonce plaintext. (plaintext, replicate 16 0)),
      decrypt_and_verify = (\<lambda>key nonce ciphertext tag.
                              if tag = replicate 16 0 then Some ciphertext else None)\<rparr>"

section \<open>Observing a run\<close>

text \<open>
  The event a \<^verbatim>\<open>send\<close> leaves in the log, given the set of sockets that are down.
\<close>

definition attempt :: "sock set \<Rightarrow> sock \<Rightarrow> string \<Rightarrow> event" where
  "attempt D k payload = (if k \<in> D then SendFailed k payload else Sent k payload)"

text \<open>The entries \<^verbatim>\<open>broadcast\<close> writes to: those whose key is not the sender.\<close>

definition recipients :: "string option \<Rightarrow> (string \<times> sock) list \<Rightarrow> (string \<times> sock) list" where
  "recipients sender cs = filter (\<lambda>(u, k). Some u \<noteq> sender) cs"

text \<open>
  The writes attempted in a piece of the log, successful or not, in order, each as the
  socket and the payload; and the piece of the log a call added.
\<close>

fun write_of :: "event \<Rightarrow> (sock \<times> string) option" where
  "write_of (Sent k d) = Some (k, d)"
| "write_of (SendFailed k d) = Some (k, d)"
| "write_of (Closed k) = None"

definition writes :: "(bool \<times> event) list \<Rightarrow> (sock \<times> string) list" where
  "writes evs = List.map_filter write_of (map snd evs)"

definition since :: "chat_server \<Rightarrow> chat_server \<Rightarrow> (bool \<times> event) list" where
  "since s s' = drop (length (trace s)) (trace s')"

text \<open>A server with two registered clients, both reachable, and nothing logged yet.\<close>

definition s_ab :: chat_server where
  "s_ab = \<lparr>clients = [(''alice'', 1), (''bob'', 2)], clients_lock = False,
           active_connections = 2, connection_count = 2, max_concurrent = 2,
           down = {}, trace = []\<rparr>"

text \<open>The same server when the connection to \<^verbatim>\<open>bob\<close> is down.\<close>

definition s_bob_down :: chat_server where
  "s_bob_down = \<lparr>clients = [(''alice'', 1), (''bob'', 2)], clients_lock = False,
           active_connections = 2, connection_count = 2, max_concurrent = 2,
           down = {2}, trace = []\<rparr>"

text \<open>The reply of \<^verbatim>\<open>private_message\<close> for a target that is not registered (line 161).\<close>

definition not_online :: "string \<Rightarrow> string" where
  "not_online target = ''[ERROR] User '' @ [CHR 0x27] @ target @ [CHR 0x27] @ '' is not online''"

text \<open>
  Sequences of registry operations: a call of \<^verbatim>\<open>add_client\<close> or of \<^verbatim>\<open>remove_client\<close>
  (with its \<^verbatim>\<open>notify\<close> flag), run one after the other on the state the previous call
  left, whatever its outcome.
\<close>

datatype op = Add string sock | Remove string bool

fun apply_op :: "chat_server \<Rightarrow> op \<Rightarrow> chat_server" where
  "apply_op s (Add username client_socket) = snd (add_client s username client_socket)"
| "apply_op s (Remove username notify) = snd (remove_client s username notify)"

definition run :: "chat_server \<Rightarrow> op list \<Rightarrow> chat_server" where
  "run s ops = foldl apply_op s ops"

text \<open>The registry invariant: no handle twice, and the counter equals the number of entries.\<close>

definition registry_inv :: "chat_server \<Rightarrow> bool" where
  "registry_inv s =
     (distinct (map fst (clients s)) \<and> active_connections s = int (length (clients s)))"

section \<open>Basic facts\<close>

lemma sock_send_lock: "clients_lock (snd (sock_send s k d)) = clients_lock s"
  by (simp add: sock_send_def)

lemma sock_send_eq:
  "sock_send s k d = (k \<notin> down s, s\<lparr>trace := trace s @ [(clients_lock s, attempt (down s) k d)]\<rparr>)"
  by (simp add: sock_send_def attempt_def)

lemma fan_out_eq:
  "fan_out cs m sender acc s =
     (acc @ map fst (filter (\<lambda>(u, k). k \<in> down s) (recipients sender cs)),
      s\<lparr>trace := trace s @ map (\<lambda>(u, k). (clients_lock s, attempt (down s) k m)) (recipients sender cs)\<rparr>)"
proof (induction cs arbitrary: acc s)
  case Nil
  show ?case by (simp add: recipients_def)
next
  case (Cons c cs)
  obtain u k where c: "c = (u, k)" by (cases c)
  show ?case
    by (simp add: c Cons.IH sock_send_eq recipients_def)
qed

lemma remove_client_locked: "clients_lock s \<Longrightarrow> remove_client s u n = (Blocked, s)"
  by (simp add: remove_client.simps)

lemma broadcast_locked: "clients_lock s \<Longrightarrow> broadcast s m sender = (Blocked, s)"
  by (simp add: broadcast.simps)

lemma remove_each_locked:
  "clients_lock s \<Longrightarrow> remove_each s us = (if us = [] then (Returned (), s) else (Blocked, s))"
  by (cases us) (simp_all add: remove_client_locked)

lemma broadcast_eq:
  assumes "\<not> clients_lock s"
  shows "broadcast s m sender =
     (if filter (\<lambda>(u, k). k \<in> down s) (recipients sender (clients s)) = []
      then (Returned (),
            s\<lparr>trace := trace s @ map (\<lambda>(u, k). (True, attempt (down s) k m)) (recipients sender (clients s))\<rparr>)
      else (Blocked,
            s\<lparr>clients_lock := True,
              trace := trace s @ map (\<lambda>(u, k). (True, attempt (down s) k m)) (recipients sender (clients s))\<rparr>))"
  using assms by (simp add: broadcast.simps fan_out_eq remove_each_locked)


lemma since_append [simp]: "trace s' = trace s @ evs \<Longrightarrow> since s s' = evs"
  by (simp add: since_def)

lemma writes_attempts:
  "writes (map (\<lambda>(u, k). (b, attempt D k m)) rs) = map (\<lambda>(u, k). (k, m)) rs"
  by (induction rs) (auto simp: writes_def List.map_filter_simps attempt_def)

lemma broadcast_trace:
  "\<not> clients_lock s \<Longrightarrow>
   trace (snd (broadcast s m sender)) =
     trace s @ map (\<lambda>(u, k). (True, attempt (down s) k m)) (recipients sender (clients s))"
  by (simp add: broadcast_eq)

section \<open>The registry\<close>

lemma remove_client_absent:
  "\<not> clients_lock s \<Longrightarrow> map_of (clients s) h = None \<Longrightarrow> remove_client s h n = (Returned (), s)"
  by (simp add: remove_client.simps)

lemma remove_client_quiet:
  "\<not> clients_lock s \<Longrightarrow> map_of (clients s) h = Some k \<Longrightarrow>
   remove_client s h False =
     (Returned (),
      s\<lparr>clients := AList.delete h (clients s),
        active_connections := active_connections s - 1,
        down := insert k (down s),
        trace := trace s @ [(True, Closed k)]\<rparr>)"
  by (simp add: remove_client.simps sock_close_def)

lemma remove_client_notify:
  "\<not> clients_lock s \<Longrightarrow> map_of (clients s) h = Some k \<Longrightarrow>
   remove_client s h True =
     (Blocked,
      s\<lparr>clients := AList.delete h (clients s),
        clients_lock := True,
        active_connections := active_connections s - 1,
        down := insert k (down s),
        trace := trace s @ [(True, attempt (down s) k ''[SERVER] Connection closed''),
                            (True, Closed k)]\<rparr>)"
  by (simp add: remove_client.simps sock_close_def sock_send_eq broadcast_locked)

lemma map_of_delete_same: "map_of (AList.delete h cs) h = None"
  by (simp add: delete_conv)

lemma length_update_fresh:
  "k \<notin> fst ` set al \<Longrightarrow> length (AList.update k v al) = Suc (length al)"
  by (induction al) auto

lemma length_delete_present:
  "distinct (map fst al) \<Longrightarrow> k \<in> fst ` set al \<Longrightarrow> Suc (length (AList.delete k al)) = length al"
  by (induction al) (auto simp: AList.delete_id image_iff)

lemma add_client_inv: "registry_inv s \<Longrightarrow> registry_inv (snd (add_client s u k))"
  by (simp add: add_client_def registry_inv_def Let_def distinct_update length_update_fresh)

lemma remove_client_inv:
  assumes "registry_inv s"
  shows "registry_inv (snd (remove_client s u n))"
proof (cases "clients_lock s")
  case True
  with assms show ?thesis by (simp add: remove_client_locked)
next
  case False
  show ?thesis
  proof (cases "map_of (clients s) u")
    case None
    with False assms show ?thesis by (simp add: remove_client_absent)
  next
    case (Some k)
    then have "u \<in> fst ` set (clients s)"
      by (metis domI dom_map_of_conv_image_fst)
    with assms have len: "int (length (AList.delete u (clients s))) = int (length (clients s)) - 1"
      using length_delete_present [of "clients s" u] by (simp add: registry_inv_def)
    from assms have d: "distinct (map fst (AList.delete u (clients s)))"
      by (simp add: registry_inv_def distinct_delete)
    show ?thesis
    proof (cases n)
      case True
      with False Some assms len d show ?thesis
        by (simp add: remove_client_notify registry_inv_def)
    next
      case n: False
      with False Some assms len d show ?thesis
        by (simp add: remove_client_quiet registry_inv_def)
    qed
  qed
qed

lemma apply_op_inv: "registry_inv s \<Longrightarrow> registry_inv (apply_op s x)"
  by (cases x) (simp_all add: add_client_inv remove_client_inv)

lemma run_inv: "registry_inv s \<Longrightarrow> registry_inv (run s ops)"
  unfolding run_def by (induction ops arbitrary: s) (simp_all add: apply_op_inv)

text \<open>
  C1. Start from the empty registry and run any sequence of \<^verbatim>\<open>add_client\<close> and
  \<^verbatim>\<open>remove_client\<close> calls (the successful ones, and the refused or idle ones as well):
  in the state reached, no handle occurs twice among the keys of \<^verbatim>\<open>clients\<close>, and
  \<^verbatim>\<open>active_connections\<close> equals the number of entries of \<^verbatim>\<open>clients\<close>. The state meant
  is the one each call leaves, also when the call does not return (then it is the state
  in which its thread waits; the deletion and the decrement have both been done by then).
\<close>

theorem registry_invariant:
  "distinct (map fst (clients (run (init_server D) ops)))
   \<and> active_connections (run (init_server D) ops) = int (length (clients (run (init_server D) ops)))"
proof -
  have "registry_inv (init_server D)"
    by (simp add: registry_inv_def init_server_def)
  then have "registry_inv (run (init_server D) ops)"
    by (rule run_inv)
  then show ?thesis by (simp add: registry_inv_def)
qed

theorem registry_invariant_witness:
  "clients (run (init_server {}) [Add ''alice'' 1, Add ''bob'' 2, Add ''alice'' 3, Remove ''alice'' False])
     = [(''bob'', 2)]
   \<and> active_connections
        (run (init_server {}) [Add ''alice'' 1, Add ''bob'' 2, Add ''alice'' 3, Remove ''alice'' False]) = 1"
proof -
  have c: "clients (run (init_server {}) [Add ''alice'' 1, Add ''bob'' 2, Add ''alice'' 3, Remove ''alice'' False])
     = [(''bob'', 2)]"
    by (simp add: run_def init_server_def add_client_def remove_client.simps sock_close_def)
  from registry_invariant [of "{}" "[Add ''alice'' 1, Add ''bob'' 2, Add ''alice'' 3, Remove ''alice'' False]"] c
  show ?thesis by simp
qed

text \<open>
  C4. When the handle is already registered (and the lock is free, so that the call gets
  to look), \<^verbatim>\<open>add_client\<close> returns \<^verbatim>\<open>False\<close> and the whole server state is what it
  was: the entry of the handle, the clients map, \<^verbatim>\<open>active_connections\<close>,
  \<^verbatim>\<open>connection_count\<close>, \<^verbatim>\<open>max_concurrent\<close>, and nothing is written or closed.
\<close>

theorem add_client_taken_no_effect:
  "\<not> clients_lock s \<Longrightarrow> h \<in> fst ` set (clients s) \<Longrightarrow> add_client s h k = (Returned False, s)"
  by (simp add: add_client_def)

theorem add_client_taken_no_effect_witness:
  "add_client s_ab ''alice'' 3 = (Returned False, s_ab)"
proof -
  have l: "\<not> clients_lock s_ab" by (simp add: s_ab_def)
  have m: "''alice'' \<in> fst ` set (clients s_ab)" by (simp add: s_ab_def)
  show ?thesis by (rule add_client_taken_no_effect [OF l m])
qed

text \<open>
  C6. A second \<^verbatim>\<open>remove_client\<close> of the same handle, whatever its \<^verbatim>\<open>notify\<close> flag, leaves
  the whole state as the first call left it: the clients map and the counters are
  unchanged and the log gets no new event, so no second notice goes out. It never raises.
  When the first call returned, the second returns too. (A first call that itself never
  returns, because it blocked on the lock, leaves the lock held; the second then waits on
  the lock and changes nothing either.)
\<close>

theorem remove_client_twice:
  "snd (remove_client (snd (remove_client s h n1)) h n2) = snd (remove_client s h n1)
   \<and> (\<forall>e. fst (remove_client (snd (remove_client s h n1)) h n2) \<noteq> Raised e)
   \<and> (fst (remove_client s h n1) = Returned () \<longrightarrow>
        remove_client (snd (remove_client s h n1)) h n2 = (Returned (), snd (remove_client s h n1)))"
proof (cases "clients_lock s")
  case True
  then show ?thesis by (simp add: remove_client_locked)
next
  case False
  show ?thesis
  proof (cases "map_of (clients s) h")
    case None
    with False show ?thesis by (simp add: remove_client_absent)
  next
    case (Some k)
    show ?thesis
    proof (cases n1)
      case True
      with False Some show ?thesis
        by (simp add: remove_client_notify remove_client_locked)
    next
      case n: False
      with False Some show ?thesis
        by (simp add: remove_client_quiet remove_client_absent map_of_delete_same)
    qed
  qed
qed

theorem remove_client_twice_witness:
  "fst (remove_client s_ab ''alice'' False) = Returned ()
   \<and> clients (snd (remove_client s_ab ''alice'' False)) = [(''bob'', 2)]
   \<and> remove_client (snd (remove_client s_ab ''alice'' False)) ''alice'' True
       = (Returned (), snd (remove_client s_ab ''alice'' False))"
proof -
  have l: "\<not> clients_lock s_ab" by (simp add: s_ab_def)
  have m: "map_of (clients s_ab) ''alice'' = Some 1" by (simp add: s_ab_def)
  have r: "fst (remove_client s_ab ''alice'' False) = Returned ()"
    by (simp add: remove_client_quiet [OF l m])
  have c: "clients (snd (remove_client s_ab ''alice'' False)) = [(''bob'', 2)]"
    by (simp add: remove_client_quiet [OF l m]) (simp add: s_ab_def)
  from remove_client_twice [of s_ab "''alice''" False True] r c show ?thesis by simp
qed

section \<open>Direct messages\<close>

lemma try_send_eq:
  "try_send s u m =
     (case map_of (clients s) u of None \<Rightarrow> s
      | Some k \<Rightarrow> s\<lparr>trace := trace s @ [(clients_lock s, attempt (down s) k m)]\<rparr>)"
  by (simp add: try_send_def sock_send_eq split: option.splits)

lemma private_message_absent:
  "\<not> clients_lock s \<Longrightarrow> map_of (clients s) target = None \<Longrightarrow>
   map_of (clients s) sender = Some k \<Longrightarrow>
   private_message s target message sender =
     (Returned (), s\<lparr>trace := trace s @ [(True, attempt (down s) k (not_online target))]\<rparr>)"
  by (simp add: private_message_def try_send_def sock_send_eq not_online_def)

text \<open>
  C5. With the lock free, the target not registered and the sender registered,
  \<^verbatim>\<open>private_message\<close> returns normally and its only effect is one write attempt, to the
  sender's socket, of the text \<^verbatim>\<open>[ERROR] User '<target>' is not online\<close>: the clients map
  and the counters are unchanged and no other socket is written to or closed. The write
  is made once; it goes through when the sender's connection is up, and a failure of it is
  swallowed (lines 162-165).
\<close>

theorem private_message_offline_target:
  assumes "\<not> clients_lock s"
    and "map_of (clients s) target = None"
    and "map_of (clients s) sender = Some k"
  shows "private_message s target message sender =
           (Returned (), s\<lparr>trace := trace s @ [(True, attempt (down s) k (not_online target))]\<rparr>)
       \<and> writes (since s (snd (private_message s target message sender)))
           = [(k, ''[ERROR] User '' @ [CHR 0x27] @ target @ [CHR 0x27] @ '' is not online'')]"
  using assms
  by (simp add: private_message_absent writes_def List.map_filter_simps attempt_def not_online_def)

theorem private_message_offline_target_witness:
  "writes (since s_ab (snd (private_message s_ab ''ghost'' ''hi'' ''alice'')))
     = [(1, ''[ERROR] User '' @ [CHR 0x27] @ ''ghost'' @ [CHR 0x27] @ '' is not online'')]
   \<and> clients (snd (private_message s_ab ''ghost'' ''hi'' ''alice'')) = clients s_ab"
proof -
  have l: "\<not> clients_lock s_ab" by (simp add: s_ab_def)
  have t: "map_of (clients s_ab) ''ghost'' = None" by (simp add: s_ab_def)
  have m: "map_of (clients s_ab) ''alice'' = Some 1" by (simp add: s_ab_def)
  from private_message_offline_target [OF l t m, of "''hi''"] show ?thesis
    by (simp add: s_ab_def writes_def List.map_filter_simps attempt_def not_online_def)
qed

section \<open>Broadcast\<close>

text \<open>
  C3. Called with the lock free, \<^verbatim>\<open>broadcast\<close> with an excluded sender attempts exactly
  one write of the message per registered entry whose handle is not the sender, in
  registry order, and none for the sender's entry. So every other registered handle's
  connection gets a write attempt, and when no two handles share a socket the sender's
  connection gets none. (A write that raises is an attempt too; what \<^verbatim>\<open>broadcast\<close> does
  after a failed write is a separate matter.)
\<close>

theorem broadcast_skips_sender_reaches_others:
  assumes "\<not> clients_lock s"
  shows "writes (since s (snd (broadcast s message (Some sender))))
           = map (\<lambda>(u, k). (k, message)) (filter (\<lambda>(u, k). u \<noteq> sender) (clients s))
       \<and> (\<forall>(u, k) \<in> set (clients s). u \<noteq> sender \<longrightarrow>
             (k, message) \<in> set (writes (since s (snd (broadcast s message (Some sender))))))
       \<and> (distinct (map snd (clients s)) \<longrightarrow>
            (\<forall>k0. (sender, k0) \<in> set (clients s) \<longrightarrow>
               k0 \<notin> fst ` set (writes (since s (snd (broadcast s message (Some sender)))))))"
proof -
  let ?w = "writes (since s (snd (broadcast s message (Some sender))))"
  have r: "recipients (Some sender) (clients s) = filter (\<lambda>(u, k). u \<noteq> sender) (clients s)"
    by (simp add: recipients_def)
  have w: "?w = map (\<lambda>(u, k). (k, message)) (filter (\<lambda>(u, k). u \<noteq> sender) (clients s))"
    using broadcast_trace [OF assms, of message "Some sender"]
    by (simp add: writes_attempts r)
  have others: "\<forall>(u, k) \<in> set (clients s). u \<noteq> sender \<longrightarrow> (k, message) \<in> set ?w"
    unfolding w by force
  have own: "k0 \<notin> fst ` set ?w"
    if d: "distinct (map snd (clients s))" and m: "(sender, k0) \<in> set (clients s)" for k0
  proof
    assume "k0 \<in> fst ` set ?w"
    then obtain u where u: "(u, k0) \<in> set (clients s)" "u \<noteq> sender"
      unfolding w by force
    from d have "inj_on snd (set (clients s))"
      by (simp add: distinct_map)
    then have "(u, k0) = (sender, k0)"
      using u(1) m by (intro inj_onD [where f = snd and A = "set (clients s)"]) simp_all
    with u(2) show False by simp
  qed
  from w others own show ?thesis by blast
qed

theorem broadcast_skips_sender_reaches_others_witness:
  "writes (since s_ab (snd (broadcast s_ab ''alice: hi'' (Some ''alice'')))) = [(2, ''alice: hi'')]
   \<and> 1 \<notin> fst ` set (writes (since s_ab (snd (broadcast s_ab ''alice: hi'' (Some ''alice'')))))"
proof -
  have l: "\<not> clients_lock s_ab" by (simp add: s_ab_def)
  have d: "distinct (map snd (clients s_ab))" by (simp add: s_ab_def)
  have m: "(''alice'', 1) \<in> set (clients s_ab)" by (simp add: s_ab_def)
  from broadcast_skips_sender_reaches_others [OF l, of "''alice: hi''" "''alice''"] d m
  show ?thesis by (simp add: s_ab_def)
qed

lemma broadcast_failed_write_blocks:
  assumes "\<not> clients_lock s" and "(u, k) \<in> set (clients s)" and "Some u \<noteq> sender"
    and "k \<in> down s"
  shows "fst (broadcast s m sender) = Blocked
       \<and> clients (snd (broadcast s m sender)) = clients s
       \<and> active_connections (snd (broadcast s m sender)) = active_connections s
       \<and> clients_lock (snd (broadcast s m sender))"
proof -
  from assms(2-4) have "(u, k) \<in> set (filter (\<lambda>(u, k). k \<in> down s) (recipients sender (clients s)))"
    by (simp add: recipients_def)
  then have "filter (\<lambda>(u, k). k \<in> down s) (recipients sender (clients s)) \<noteq> []"
    by (metis empty_iff empty_set)
  with assms(1) show ?thesis
    by (simp add: broadcast_eq)
qed

text \<open>
  C7. The clean-up after a failed write never happens. \<^verbatim>\<open>broadcast\<close> calls
  \<^verbatim>\<open>remove_client(username, notify=False)\<close> from inside its own
  \<^verbatim>\<open>with self.clients_lock\<close> block, and \<^verbatim>\<open>remove_client\<close> starts by acquiring the same
  non-reentrant lock: the call blocks for ever. Here \<^verbatim>\<open>alice\<close> broadcasts while the
  connection to \<^verbatim>\<open>bob\<close> is down: the write to \<^verbatim>\<open>bob\<close> fails, \<^verbatim>\<open>broadcast\<close> does not
  return, \<^verbatim>\<open>bob\<close> is still registered and the lock stays held.
\<close>

theorem broadcast_failed_write_example:
  "broadcast s_bob_down ''alice: hi'' (Some ''alice'') =
     (Blocked, s_bob_down\<lparr>clients_lock := True, trace := [(True, SendFailed 2 ''alice: hi'')]\<rparr>)
   \<and> map_of (clients (snd (broadcast s_bob_down ''alice: hi'' (Some ''alice'')))) ''bob'' = Some 2"
  by (simp add: broadcast_eq s_bob_down_def recipients_def attempt_def)

section \<open>Routing\<close>

lemma py_split_length: "length (py_split sep n s) \<le> Suc n"
  by (induction n arbitrary: s) auto

lemma reply_eq:
  "map_of (clients s) u = Some k \<Longrightarrow>
   reply s u m =
     (if k \<in> down s then Raised OSError else Returned (),
      s\<lparr>trace := trace s @ [(clients_lock s, attempt (down s) k m)]\<rparr>)"
  by (simp add: reply_def sock_send_eq)

lemma route_private_usage:
  "prefix ''/private'' message \<Longrightarrow> length (py_split (CHR '' '') 2 message) < 3 \<Longrightarrow>
   route_message s username message = reply s username usage_error"
  by (simp add: route_message_def Let_def)

lemma route_private_deliver:
  assumes "prefix ''/private'' message" and "3 \<le> length (py_split (CHR '' '') 2 message)"
  shows "route_message s username message =
           private_message s (py_split (CHR '' '') 2 message ! 1)
             (py_split (CHR '' '') 2 message ! 2) username"
proof -
  have "length (py_split (CHR '' '') 2 message) \<le> 3"
    using py_split_length [of "CHR '' ''" 2 message] by simp
  with assms(2) have "length (py_split (CHR '' '') 2 message) = 3" by simp
  then obtain a b c where p: "py_split (CHR '' '') 2 message = [a, b, c]"
    by (auto simp: length_Suc_conv numeral_3_eq_3)
  with assms(1) show ?thesis
    by (simp add: route_message_def Let_def)
qed

lemma route_users:
  "\<not> clients_lock s \<Longrightarrow>
   route_message s username ''/users'' =
     reply s username
       (''[SERVER] Online users ('' @ py_str (length (clients s)) @ ''): ''
          @ py_join '', '' (map fst (clients s)))"
  by (simp add: route_message_def get_online_users_def)

lemma route_help: "route_message s username ''/help'' = reply s username help_text"
  by (simp add: route_message_def)

lemma route_group:
  "\<not> prefix ''/private'' message \<Longrightarrow> message \<noteq> ''/users'' \<Longrightarrow> message \<noteq> ''/help'' \<Longrightarrow>
   route_message s username message = broadcast s (username @ '': '' @ message) (Some username)"
  by (simp add: route_message_def)

text \<open>
  C2, as amended. For a registered sender (and the lock free), \<^verbatim>\<open>route_message\<close>
  dispatches in this order. A line that begins with the eight characters
  \<^verbatim>\<open>/private\<close>, whether or not a space follows, is the private-message command: it is split
  at single spaces into at most three tokens; with fewer than three tokens the usage error
  is written to the sender's socket and to no other, and nothing else changes; with three,
  \<^verbatim>\<open>private_message\<close> is called with the second token as target and the rest as text. The
  line \<^verbatim>\<open>/users\<close> gets the reply with the number and the list of handles, the line
  \<^verbatim>\<open>/help\<close> the command summary, both written to the sender only. Every other line is
  written, with the sender's handle and \<^verbatim>\<open>: \<close> in front, once to the socket of every
  registered handle other than the sender, and the registry is not changed. (A direct
  reply whose write fails raises to the caller.)
\<close>

theorem route_message_dispatch:
  assumes "\<not> clients_lock s" and "map_of (clients s) username = Some k"
  shows "(prefix ''/private'' message \<and> length (py_split (CHR '' '') 2 message) < 3 \<longrightarrow>
            route_message s username message =
              (if k \<in> down s then Raised OSError else Returned (),
               s\<lparr>trace := trace s @ [(False, attempt (down s) k usage_error)]\<rparr>))
       \<and> (prefix ''/private'' message \<and> 3 \<le> length (py_split (CHR '' '') 2 message) \<longrightarrow>
            route_message s username message =
              private_message s (py_split (CHR '' '') 2 message ! 1)
                (py_split (CHR '' '') 2 message ! 2) username)
       \<and> (message = ''/users'' \<longrightarrow>
            route_message s username message =
              (if k \<in> down s then Raised OSError else Returned (),
               s\<lparr>trace := trace s @
                  [(False, attempt (down s) k
                     (''[SERVER] Online users ('' @ py_str (length (clients s)) @ ''): ''
                        @ py_join '', '' (map fst (clients s))))]\<rparr>))
       \<and> (message = ''/help'' \<longrightarrow>
            route_message s username message =
              (if k \<in> down s then Raised OSError else Returned (),
               s\<lparr>trace := trace s @ [(False, attempt (down s) k help_text)]\<rparr>))
       \<and> (\<not> prefix ''/private'' message \<and> message \<noteq> ''/users'' \<and> message \<noteq> ''/help'' \<longrightarrow>
            writes (since s (snd (route_message s username message)))
              = map (\<lambda>(u, k). (k, username @ '': '' @ message))
                  (filter (\<lambda>(u, k). u \<noteq> username) (clients s))
            \<and> clients (snd (route_message s username message)) = clients s)"
proof -
  have l: "clients_lock s = False" using assms(1) by simp
  have r: "recipients (Some username) (clients s) = filter (\<lambda>(u, k). u \<noteq> username) (clients s)"
    by (simp add: recipients_def)
  have usage: "prefix ''/private'' message \<and> length (py_split (CHR '' '') 2 message) < 3 \<longrightarrow>
            route_message s username message =
              (if k \<in> down s then Raised OSError else Returned (),
               s\<lparr>trace := trace s @ [(False, attempt (down s) k usage_error)]\<rparr>)"
    by (simp add: route_private_usage reply_eq [OF assms(2)] l)
  have deliver: "prefix ''/private'' message \<and> 3 \<le> length (py_split (CHR '' '') 2 message) \<longrightarrow>
            route_message s username message =
              private_message s (py_split (CHR '' '') 2 message ! 1)
                (py_split (CHR '' '') 2 message ! 2) username"
    using route_private_deliver by blast
  have users: "message = ''/users'' \<longrightarrow>
            route_message s username message =
              (if k \<in> down s then Raised OSError else Returned (),
               s\<lparr>trace := trace s @
                  [(False, attempt (down s) k
                     (''[SERVER] Online users ('' @ py_str (length (clients s)) @ ''): ''
                        @ py_join '', '' (map fst (clients s))))]\<rparr>)"
    using route_users [OF assms(1), of username] reply_eq [OF assms(2)] l by simp
  have helped: "message = ''/help'' \<longrightarrow>
            route_message s username message =
              (if k \<in> down s then Raised OSError else Returned (),
               s\<lparr>trace := trace s @ [(False, attempt (down s) k help_text)]\<rparr>)"
    using route_help [of s username] reply_eq [OF assms(2)] l by simp
  have group: "\<not> prefix ''/private'' message \<and> message \<noteq> ''/users'' \<and> message \<noteq> ''/help'' \<longrightarrow>
            writes (since s (snd (route_message s username message)))
              = map (\<lambda>(u, k). (k, username @ '': '' @ message))
                  (filter (\<lambda>(u, k). u \<noteq> username) (clients s))
            \<and> clients (snd (route_message s username message)) = clients s"
  proof (intro impI)
    assume a: "\<not> prefix ''/private'' message \<and> message \<noteq> ''/users'' \<and> message \<noteq> ''/help''"
    then have e: "route_message s username message
                    = broadcast s (username @ '': '' @ message) (Some username)"
      by (simp add: route_group)
    have w: "writes (since s (snd (broadcast s (username @ '': '' @ message) (Some username))))
              = map (\<lambda>(u, k). (k, username @ '': '' @ message))
                  (filter (\<lambda>(u, k). u \<noteq> username) (clients s))"
      using broadcast_trace [OF assms(1), of "username @ '': '' @ message" "Some username"]
      by (simp add: writes_attempts r)
    have c: "clients (snd (broadcast s (username @ '': '' @ message) (Some username))) = clients s"
      using assms(1) by (simp add: broadcast_eq)
    from e w c show "writes (since s (snd (route_message s username message)))
              = map (\<lambda>(u, k). (k, username @ '': '' @ message))
                  (filter (\<lambda>(u, k). u \<noteq> username) (clients s))
            \<and> clients (snd (route_message s username message)) = clients s"
      by simp
  qed
  from usage deliver users helped group show ?thesis by (intro conjI)
qed

theorem route_message_dispatch_witness:
  "route_message s_ab ''alice'' ''/private''
     = (Returned (), s_ab\<lparr>trace := [(False, Sent 1 usage_error)]\<rparr>)
   \<and> route_message s_ab ''alice'' ''/private bob hi'' = private_message s_ab ''bob'' ''hi'' ''alice''
   \<and> route_message s_ab ''alice'' ''/users''
     = (Returned (), s_ab\<lparr>trace := [(False, Sent 1 ''[SERVER] Online users (2): alice, bob'')]\<rparr>)
   \<and> route_message s_ab ''alice'' ''/help''
     = (Returned (), s_ab\<lparr>trace := [(False, Sent 1 help_text)]\<rparr>)
   \<and> writes (since s_ab (snd (route_message s_ab ''alice'' ''hello''))) = [(2, ''alice: hello'')]"
proof -
  have l: "\<not> clients_lock s_ab" by (simp add: s_ab_def)
  have m: "map_of (clients s_ab) ''alice'' = Some 1" by (simp add: s_ab_def)
  have d: "down s_ab = {}" "trace s_ab = []" "clients s_ab = [(''alice'', 1), (''bob'', 2)]"
    by (simp_all add: s_ab_def)
  have p1: "py_split (CHR '' '') 2 ''/private'' = [''/private'']"
    by (simp add: numeral_2_eq_2)
  have p2: "py_split (CHR '' '') 2 ''/private bob hi'' = [''/private'', ''bob'', ''hi'']"
    by (simp add: numeral_2_eq_2)
  have n2: "py_str (Suc (Suc 0)) = ''2''"
    by code_simp
  have a: "route_message s_ab ''alice'' ''/private''
     = (Returned (), s_ab\<lparr>trace := [(False, Sent 1 usage_error)]\<rparr>)"
    using route_message_dispatch [OF l m, of "''/private''"] by (simp add: p1 d attempt_def)
  have b: "route_message s_ab ''alice'' ''/private bob hi'' = private_message s_ab ''bob'' ''hi'' ''alice''"
    using route_message_dispatch [OF l m, of "''/private bob hi''"] by (simp add: p2)
  have c: "route_message s_ab ''alice'' ''/users''
     = (Returned (), s_ab\<lparr>trace := [(False, Sent 1 ''[SERVER] Online users (2): alice, bob'')]\<rparr>)"
    using route_message_dispatch [OF l m, of "''/users''"] by (simp add: d attempt_def n2)
  have e: "route_message s_ab ''alice'' ''/help''
     = (Returned (), s_ab\<lparr>trace := [(False, Sent 1 help_text)]\<rparr>)"
    using route_message_dispatch [OF l m, of "''/help''"] by (simp add: d attempt_def)
  have f: "writes (since s_ab (snd (route_message s_ab ''alice'' ''hello''))) = [(2, ''alice: hello'')]"
    using route_message_dispatch [OF l m, of "''hello''"] by (simp add: d)
  from a b c e f show ?thesis by (intro conjI)
qed

text \<open>
  C2 as stated fails: the line \<^verbatim>\<open>/privatex bob hi\<close> does not begin with \<^verbatim>\<open>/private \<close>
  and is neither \<^verbatim>\<open>/users\<close> nor \<^verbatim>\<open>/help\<close>, yet it is not broadcast: it is delivered to
  \<^verbatim>\<open>bob\<close> as a private message. Likewise the bare line \<^verbatim>\<open>/private\<close> gets the usage error.
\<close>

theorem route_message_private_prefix_counterexample:
  "\<not> prefix ''/private '' ''/privatex bob hi''
   \<and> ''/privatex bob hi'' \<noteq> ''/users'' \<and> ''/privatex bob hi'' \<noteq> ''/help''
   \<and> writes (since s_ab (snd (route_message s_ab ''alice'' ''/privatex bob hi'')))
       = [(2, ''[PRIVATE] alice: hi''), (1, ''[SENT] Private message to bob'')]
   \<and> \<not> prefix ''/private '' ''/private''
   \<and> writes (since s_ab (snd (route_message s_ab ''alice'' ''/private'')))
       = [(1, ''[ERROR] Usage: /private <username> <message>'')]"
  by (simp add: route_message_def private_message_def reply_def sock_send_eq s_ab_def
        since_def writes_def attempt_def usage_error_def Let_def numeral_2_eq_2)

section \<open>The handshake\<close>

lemma handle_client_empty:
  "py_strip d = [] \<Longrightarrow> handle_client s c (Data d # rest) = (Returned (), sock_close s c)"
  by (simp add: handle_client_def cleanup_def)

lemma handle_client_duplicate:
  assumes "\<not> clients_lock s" and "py_strip d \<noteq> []" and "map_of (clients s) (py_strip d) = Some k"
  shows "fst (handle_client s c (Data d # rest)) = Blocked
       \<and> clients (snd (handle_client s c (Data d # rest))) = AList.delete (py_strip d) (clients s)
       \<and> active_connections (snd (handle_client s c (Data d # rest))) = active_connections s - 1
       \<and> (True, Closed k) \<in> set (since s (snd (handle_client s c (Data d # rest))))"
proof -
  from assms(3) have m: "py_strip d \<in> fst ` set (clients s)"
    by (metis domI dom_map_of_conv_image_fst)
  show ?thesis
    using assms m
    by (cases "c \<in> down s")
       (simp_all add: handle_client_def cleanup_def add_client_def sock_send_eq sock_close_def
          remove_client_notify since_def Let_def)
qed

text \<open>
  C8. A new connection (socket 3) sends the handle \<^verbatim>\<open>alice\<close> while \<^verbatim>\<open>alice\<close> is registered
  on socket 1. The newcomer gets the error and its socket is closed; then the
  \<^verbatim>\<open>finally\<close> block runs \<^verbatim>\<open>remove_client\<close> for that handle, which is the registered
  client's: \<^verbatim>\<open>[SERVER] Connection closed\<close> is written to socket 1, socket 1 is closed, the
  entry of \<^verbatim>\<open>alice\<close> is deleted and \<^verbatim>\<open>active_connections\<close> drops to 1. The handler then
  blocks in \<^verbatim>\<open>broadcast\<close> with the lock held.
\<close>

theorem handle_client_duplicate_example:
  "handle_client s_ab 3 [Data ''alice''] =
     (Blocked,
      \<lparr>clients = [(''bob'', 2)], clients_lock = True, active_connections = 1,
       connection_count = 2, max_concurrent = 2, down = {1, 3},
       trace = [(False, Sent 3 ''[ERROR] Username already taken. Please try another.''),
                (False, Closed 3),
                (True, Sent 1 ''[SERVER] Connection closed''),
                (True, Closed 1)]\<rparr>)"
  by (simp add: handle_client_def cleanup_def add_client_def sock_send_eq sock_close_def
        remove_client_notify s_ab_def py_strip_def is_space_def attempt_def taken_error_def)

section \<open>Lock discipline\<close>

lemma bool_case_if: "(case b of True \<Rightarrow> x | False \<Rightarrow> y) = (if b then x else y)"
  by (cases b) simp_all

lemma reply_since:
  "since s (snd (reply s u m)) =
     (case map_of (clients s) u of None \<Rightarrow> [] | Some k \<Rightarrow> [(clients_lock s, attempt (down s) k m)])"
  by (simp add: reply_def sock_send_eq since_def bool_case_if split: option.splits)

lemma private_message_locked_writes:
  "\<not> clients_lock s \<Longrightarrow> list_all fst (since s (snd (private_message s t m u)))"
  by (simp add: private_message_def try_send_eq sock_send_eq Let_def since_def bool_case_if
           split: option.splits)

lemma remove_client_locked_writes:
  assumes "\<not> clients_lock s"
  shows "list_all fst (since s (snd (remove_client s u n)))"
proof (cases "map_of (clients s) u")
  case None
  with assms show ?thesis by (simp add: remove_client_absent since_def)
next
  case (Some k)
  show ?thesis
  proof (cases n)
    case True
    with assms Some show ?thesis by (simp add: remove_client_notify since_def)
  next
    case False
    with assms Some show ?thesis by (simp add: remove_client_quiet since_def)
  qed
qed

text \<open>
  C9, as amended. The registry lock is held across network writes. Called with the lock
  free, \<^verbatim>\<open>broadcast\<close> performs all its recipient writes, one to each registered handle other
  than the sender, with the lock held; and every socket operation that
  \<^verbatim>\<open>private_message\<close> and \<^verbatim>\<open>remove_client\<close> perform is likewise made while the lock is
  held.
\<close>

theorem writes_made_under_lock:
  assumes "\<not> clients_lock s"
  shows "since s (snd (broadcast s message sender))
           = map (\<lambda>(u, k). (True, attempt (down s) k message)) (recipients sender (clients s))
       \<and> list_all fst (since s (snd (private_message s target body origin)))
       \<and> list_all fst (since s (snd (remove_client s username notify)))"
proof -
  have b: "since s (snd (broadcast s message sender))
             = map (\<lambda>(u, k). (True, attempt (down s) k message)) (recipients sender (clients s))"
    using broadcast_trace [OF assms, of message sender] by simp
  from b private_message_locked_writes [OF assms, of target body origin]
    remove_client_locked_writes [OF assms, of username notify]
  show ?thesis by (intro conjI)
qed

theorem writes_made_under_lock_witness:
  "since s_ab (snd (broadcast s_ab ''alice: hi'' (Some ''alice''))) = [(True, Sent 2 ''alice: hi'')]
   \<and> since s_ab (snd (private_message s_ab ''bob'' ''hi'' ''alice''))
       = [(True, Sent 2 ''[PRIVATE] alice: hi''), (True, Sent 1 ''[SENT] Private message to bob'')]
   \<and> since s_ab (snd (remove_client s_ab ''bob'' True))
       = [(True, Sent 2 ''[SERVER] Connection closed''), (True, Closed 2)]
   \<and> list_all fst (since s_ab (snd (private_message s_ab ''bob'' ''hi'' ''alice'')))
   \<and> list_all fst (since s_ab (snd (remove_client s_ab ''bob'' True)))"
proof -
  have l: "\<not> clients_lock s_ab" by (simp add: s_ab_def)
  have m: "map_of (clients s_ab) ''bob'' = Some 2" by (simp add: s_ab_def)
  note w = writes_made_under_lock [OF l, of "''alice: hi''" "Some ''alice''" "''bob''" "''hi''"
             "''alice''" "''bob''" True]
  have b: "since s_ab (snd (broadcast s_ab ''alice: hi'' (Some ''alice'')))
             = [(True, Sent 2 ''alice: hi'')]"
    using w by (simp add: s_ab_def recipients_def attempt_def)
  have p: "since s_ab (snd (private_message s_ab ''bob'' ''hi'' ''alice''))
       = [(True, Sent 2 ''[PRIVATE] alice: hi''), (True, Sent 1 ''[SENT] Private message to bob'')]"
    by (simp add: private_message_def sock_send_eq since_def attempt_def s_ab_def)
  have r: "since s_ab (snd (remove_client s_ab ''bob'' True))
       = [(True, Sent 2 ''[SERVER] Connection closed''), (True, Closed 2)]"
    by (simp add: remove_client_notify [OF l m]) (simp add: s_ab_def attempt_def)
  have pl: "list_all fst (since s_ab (snd (private_message s_ab ''bob'' ''hi'' ''alice'')))"
    using w by (elim conjE)
  have rl: "list_all fst (since s_ab (snd (remove_client s_ab ''bob'' True)))"
    using w by (elim conjE)
  from b p r pl rl show ?thesis by (intro conjI)
qed

text \<open>
  C9 as stated fails: \<^verbatim>\<open>alice\<close> broadcasts, and the write to \<^verbatim>\<open>bob\<close>'s socket is made
  while the lock is held.
\<close>

theorem broadcast_writes_under_lock_counterexample:
  "(True, Sent 2 ''alice: hi'') \<in> set (trace (snd (broadcast s_ab ''alice: hi'' (Some ''alice''))))"
  by (simp add: broadcast_eq s_ab_def recipients_def attempt_def)

section \<open>Encryption round trip\<close>

lemma split3: "(c::nat) div 0x1000 * 0x1000 + c div 0x40 mod 0x40 * 0x40 + c mod 0x40 = c"
proof -
  have "c div 0x1000 = c div 0x40 div 0x40"
    by (simp add: div_mult2_eq [symmetric])
  then have "c div 0x1000 * 0x40 + c div 0x40 mod 0x40 = c div 0x40"
    by simp
  then have "(c div 0x1000 * 0x40 + c div 0x40 mod 0x40) * 0x40 + c mod 0x40 = c"
    by simp
  then show ?thesis by (simp add: algebra_simps)
qed

lemma split4:
  "(c::nat) div 0x40000 * 0x40000 + c div 0x1000 mod 0x40 * 0x1000
             + c div 0x40 mod 0x40 * 0x40 + c mod 0x40 = c"
proof -
  have "c div 0x40000 = c div 0x1000 div 0x40"
    by (simp add: div_mult2_eq [symmetric])
  then have "c div 0x40000 * 0x40 + c div 0x1000 mod 0x40 = c div 0x1000"
    by simp
  then have "(c div 0x40000 * 0x40 + c div 0x1000 mod 0x40) * 0x1000
               + c div 0x40 mod 0x40 * 0x40 + c mod 0x40 = c"
    using split3 [of c] by simp
  then show ?thesis by (simp add: algebra_simps)
qed


lemma decode_1: "c < 0x80 \<Longrightarrow> utf8_decode (c # r) = map_option ((#) c) (utf8_decode r)"
  by simp

lemma decode_2:
  assumes "0x80 \<le> c" "c < 0x800"
  shows "utf8_decode ((0xC0 + c div 0x40) # (0x80 + c mod 0x40) # r)
           = map_option ((#) c) (utf8_decode r)"
proof -
  have a: "2 \<le> c div 0x40" "c div 0x40 < 32" using assms by simp_all
  have m: "c mod 0x40 < 0x40" by simp
  have lead: "\<not> 0xC0 + c div 0x40 < 0x80" "0xC2 \<le> 0xC0 + c div 0x40" "0xC0 + c div 0x40 < 0xE0"
    using a by simp_all
  have c1: "cont (0x80 + c mod 0x40)" using m by (simp add: cont_def)
  have v: "(0xC0 + c div 0x40 - 0xC0) * 0x40 + (0x80 + c mod 0x40 - 0x80) = c" by simp
  show ?thesis
    by (simp only: utf8_decode.simps lead c1 v if_True if_False simp_thms list.case)
qed


lemma decode_3:
  assumes "0x800 \<le> c" "c < 0x10000" "\<not> (0xD800 \<le> c \<and> c \<le> 0xDFFF)"
  shows "utf8_decode ((0xE0 + c div 0x1000) # (0x80 + c div 0x40 mod 0x40) # (0x80 + c mod 0x40) # r)
           = map_option ((#) c) (utf8_decode r)"
proof -
  have a: "c div 0x1000 < 16" using assms by simp
  have lead: "\<not> 0xE0 + c div 0x1000 < 0x80"
    "\<not> (0xC2 \<le> 0xE0 + c div 0x1000 \<and> 0xE0 + c div 0x1000 < 0xE0)"
    "0xE0 \<le> 0xE0 + c div 0x1000 \<and> 0xE0 + c div 0x1000 < 0xF0"
    using a by simp_all
  have c1: "cont (0x80 + c div 0x40 mod 0x40)" by (simp add: cont_def)
  have c2: "cont (0x80 + c mod 0x40)" by (simp add: cont_def)
  have v: "(0xE0 + c div 0x1000 - 0xE0) * 0x1000 + (0x80 + c div 0x40 mod 0x40 - 0x80) * 0x40
             + (0x80 + c mod 0x40 - 0x80) = c"
    using split3 [of c] by simp
  have ok: "0x800 \<le> c \<and> \<not> (0xD800 \<le> c \<and> c \<le> 0xDFFF)" using assms by simp
  show ?thesis
    by (simp only: utf8_decode.simps lead c1 c2 v ok Let_def if_True if_False simp_thms list.case)
qed

lemma decode_4:
  assumes "0x10000 \<le> c" "c < 0x110000"
  shows "utf8_decode ((0xF0 + c div 0x40000) # (0x80 + c div 0x1000 mod 0x40)
                        # (0x80 + c div 0x40 mod 0x40) # (0x80 + c mod 0x40) # r)
           = map_option ((#) c) (utf8_decode r)"
proof -
  have a: "c div 0x40000 < 5" using assms by simp
  have lead: "\<not> 0xF0 + c div 0x40000 < 0x80"
    "\<not> (0xC2 \<le> 0xF0 + c div 0x40000 \<and> 0xF0 + c div 0x40000 < 0xE0)"
    "\<not> (0xE0 \<le> 0xF0 + c div 0x40000 \<and> 0xF0 + c div 0x40000 < 0xF0)"
    "0xF0 \<le> 0xF0 + c div 0x40000 \<and> 0xF0 + c div 0x40000 < 0xF5"
    using a by simp_all
  have c1: "cont (0x80 + c div 0x1000 mod 0x40)" by (simp add: cont_def)
  have c2: "cont (0x80 + c div 0x40 mod 0x40)" by (simp add: cont_def)
  have c3: "cont (0x80 + c mod 0x40)" by (simp add: cont_def)
  have v: "(0xF0 + c div 0x40000 - 0xF0) * 0x40000 + (0x80 + c div 0x1000 mod 0x40 - 0x80) * 0x1000
             + (0x80 + c div 0x40 mod 0x40 - 0x80) * 0x40 + (0x80 + c mod 0x40 - 0x80) = c"
    using split4 [of c] by simp
  have ok: "0x10000 \<le> c \<and> c < 0x110000" using assms by simp
  show ?thesis
    by (simp only: utf8_decode.simps lead c1 c2 c3 v ok Let_def if_True if_False simp_thms list.case)
qed

lemma decode_encode_char:
  assumes "utf8_encode_char c = Some bs"
  shows "utf8_decode (bs @ r) = map_option ((#) c) (utf8_decode r)"
proof -
  consider (one) "c < 0x80" | (two) "0x80 \<le> c" "c < 0x800"
    | (three) "0x800 \<le> c" "c < 0x10000" | (four) "0x10000 \<le> c" "c < 0x110000"
    | (out) "0x110000 \<le> c"
    by linarith
  then show ?thesis
  proof cases
    case one
    with assms have "bs = [c]" by (simp add: utf8_encode_char_def)
    with decode_1 [OF one, of r] show ?thesis by (simp only: append.simps)
  next
    case two
    with assms have "bs = [0xC0 + c div 0x40, 0x80 + c mod 0x40]"
      by (simp add: utf8_encode_char_def)
    with decode_2 [OF two, of r] show ?thesis by (simp only: append.simps)
  next
    case three
    with assms have s: "\<not> (0xD800 \<le> c \<and> c \<le> 0xDFFF)"
      by (auto simp: utf8_encode_char_def)
    with three assms
    have "bs = [0xE0 + c div 0x1000, 0x80 + c div 0x40 mod 0x40, 0x80 + c mod 0x40]"
      by (auto simp: utf8_encode_char_def)
    with decode_3 [OF three s, of r] show ?thesis by (simp only: append.simps)
  next
    case four
    with assms
    have "bs = [0xF0 + c div 0x40000, 0x80 + c div 0x1000 mod 0x40,
                0x80 + c div 0x40 mod 0x40, 0x80 + c mod 0x40]"
      by (simp add: utf8_encode_char_def)
    with decode_4 [OF four, of r] show ?thesis by (simp only: append.simps)
  next
    case out
    with assms show ?thesis by (simp add: utf8_encode_char_def)
  qed
qed

lemma decode_encode: "utf8_encode m = Some bs \<Longrightarrow> utf8_decode bs = Some m"
proof (induction m arbitrary: bs)
  case Nil
  then show ?case by simp
next
  case (Cons c m)
  from Cons.prems obtain b1 r where e: "utf8_encode_char c = Some b1" "utf8_encode m = Some r"
    "bs = b1 @ r"
    by (auto split: option.splits)
  from Cons.IH [OF e(2)] have "utf8_decode r = Some m" .
  with decode_encode_char [OF e(1), of r] e(3) show ?case by simp
qed

lemma encodable_char: "c < 0x110000 \<Longrightarrow> \<not> (0xD800 \<le> c \<and> c \<le> 0xDFFF) \<Longrightarrow> \<exists>bs. utf8_encode_char c = Some bs"
  by (simp add: utf8_encode_char_def)

lemma encodable_encodes: "encodable message \<Longrightarrow> \<exists>bs. utf8_encode message = Some bs"
proof (induction message)
  case Nil
  show ?case by simp
next
  case (Cons c message)
  then have c: "c < 0x110000" "\<not> (0xD800 \<le> c \<and> c \<le> 0xDFFF)" and m: "encodable message"
    by (simp_all add: encodable_def)
  from encodable_char [OF c] obtain b1 where b1: "utf8_encode_char c = Some b1" by blast
  from Cons.IH [OF m] obtain r where r: "utf8_encode message = Some r" by blast
  from b1 r show ?case by simp
qed

lemma encodable_iff: "encodable message = (utf8_encode message \<noteq> None)"
proof (induction message)
  case Nil
  show ?case by (simp add: encodable_def)
next
  case (Cons c message)
  have "(c < 0x110000 \<and> \<not> (0xD800 \<le> c \<and> c \<le> 0xDFFF)) = (utf8_encode_char c \<noteq> None)"
    by (simp add: utf8_encode_char_def)
  with Cons show ?case
    by (auto simp: encodable_def split: option.splits)
qed

lemma surrogate_not_encoded: "encrypt_message aes nonce [0xD800] = Inl UnicodeEncodeError"
  by (simp add: encrypt_message_def utf8_encode_char_def)

text \<open>
  C10, as amended. Let the cipher return a 16-byte tag and let decrypt-and-verify undo
  encrypt-and-digest under the fixed key and the nonce drawn, which is 16 bytes long. Then
  for every string that UTF-8 can encode, \<^verbatim>\<open>decrypt_message(encrypt_message(m))\<close> returns
  \<open>m\<close>: \<^verbatim>\<open>encrypt_message\<close> emits the nonce, the tag and the ciphertext in this order, and
  \<^verbatim>\<open>decrypt_message\<close> cuts its input at offsets 16 and 32.
\<close>

theorem decrypt_encrypt_round_trip:
  assumes nonce: "length nonce = 16"
    and tag: "\<And>p. length (snd (encrypt_and_digest aes KEY nonce p)) = 16"
    and eax: "\<And>p. decrypt_and_verify aes KEY nonce
                     (fst (encrypt_and_digest aes KEY nonce p))
                     (snd (encrypt_and_digest aes KEY nonce p)) = Some p"
    and msg: "encodable message"
  shows "round_trip aes nonce message = Inr message"
proof -
  from encodable_encodes [OF msg] obtain p where p: "utf8_encode message = Some p" by blast
  obtain c t where ct: "encrypt_and_digest aes KEY nonce p = (c, t)"
    by (cases "encrypt_and_digest aes KEY nonce p")
  from tag [of p] ct have t: "length t = 16" by simp
  from eax [of p] ct have d: "decrypt_and_verify aes KEY nonce c t = Some p" by simp
  have e: "encrypt_message aes nonce message = Inr (nonce @ t @ c)"
    by (simp add: encrypt_message_def p ct)
  have "decrypt_message aes (nonce @ t @ c) = Inr message"
    by (simp add: decrypt_message_def nonce t d decode_encode [OF p])
  with e show ?thesis by (simp add: round_trip_def)
qed

theorem decrypt_encrypt_round_trip_witness:
  "encrypt_message plain_eax (replicate 16 7) [0x68, 0xE9]
     = Inr (replicate 16 7 @ replicate 16 0 @ [0x68, 0xC3, 0xA9])
   \<and> round_trip plain_eax (replicate 16 7) [0x68, 0xE9] = Inr [0x68, 0xE9]"
proof -
  have n: "length (replicate 16 (7::nat)) = 16" by simp
  have t: "\<And>p. length (snd (encrypt_and_digest plain_eax KEY (replicate 16 7) p)) = 16"
    by (simp add: plain_eax_def)
  have x: "\<And>p. decrypt_and_verify plain_eax KEY (replicate 16 7)
                     (fst (encrypt_and_digest plain_eax KEY (replicate 16 7) p))
                     (snd (encrypt_and_digest plain_eax KEY (replicate 16 7) p)) = Some p"
    by (simp add: plain_eax_def)
  have m: "encodable [0x68, 0xE9]" by (simp add: encodable_def)
  have e: "encrypt_message plain_eax (replicate 16 7) [0x68, 0xE9]
     = Inr (replicate 16 7 @ replicate 16 0 @ [0x68, 0xC3, 0xA9])"
    by (simp add: encrypt_message_def plain_eax_def utf8_encode_char_def)
  from e decrypt_encrypt_round_trip [OF n t x m] show ?thesis by (intro conjI)
qed

text \<open>
  C10 as stated fails for a string with a lone surrogate, such as \<^verbatim>\<open>"\ud800"\<close>:
  \<^verbatim>\<open>message.encode("utf-8")\<close> raises before the cipher is reached, whatever the cipher
  and the nonce.
\<close>

theorem round_trip_surrogate_counterexample:
  "round_trip plain_eax (replicate 16 7) [0xD800] = Inl UnicodeEncodeError"
  by (simp add: round_trip_def encrypt_message_def utf8_encode_char_def)

end
